theory Spec2Isabelle
  imports Main
begin

section \<open>The shell-like tokenizer of qutebrowser (utils/split.py)\<close>

text \<open>
  The module \<^verbatim>\<open>qutebrowser/utils/split.py\<close> holds the class \<^verbatim>\<open>ShellLexer\<close>, a
  generator-based scanner, and the function \<^verbatim>\<open>split\<close>, which runs the scanner and
  re-attaches whitespace fragments to the token that follows them.

  Python strings are modelled as HOL strings (lists of \<^typ>\<open>char\<close>, code points below 256).
  The calls to \<^verbatim>\<open>log.shlexer.vdebug\<close> only format a message for the debug log and change
  nothing the lexer reads, so they have no counterpart here.
\<close>

subsection \<open>Characters the source writes as literals\<close>

abbreviation squote :: char where "squote \<equiv> CHR 0x27"
abbreviation dquote :: char where "dquote \<equiv> CHR 0x22"
abbreviation backslash :: char where "backslash \<equiv> CHR 0x5C"
abbreviation tab :: char where "tab \<equiv> CHR 0x09"
abbreviation cr :: char where "cr \<equiv> CHR 0x0D"

subsection \<open>The class ShellLexer\<close>

text \<open>
  One record holds every attribute of the object: the five that \<^verbatim>\<open>__init__\<close> sets once
  (\<open>string\<close> to \<open>escapedquotes\<close>), the two mode flags, and the four that \<^verbatim>\<open>reset\<close> sets
  (\<open>quoted\<close>, \<open>escapedstate\<close>, \<open>token\<close>, \<open>state\<close>). The scanner state is a character, as
  in the source: a blank between tokens, the letter a inside a word, the open quote
  character inside a quoted segment, the escape character after an escape.
\<close>

record ShellLexer =
  string :: string
  whitespace :: string
  quotes :: string
  escape :: string
  escapedquotes :: string
  keep :: bool
  placeholder :: bool
  quoted :: bool
  escapedstate :: char
  token :: string
  state :: char

definition reset :: "ShellLexer \<Rightarrow> ShellLexer" where
  "reset self = self\<lparr>quoted := False, escapedstate := CHR '' '', token := [], state := CHR '' ''\<rparr>"

text \<open>
  \<^verbatim>\<open>__init__\<close> leaves the four scanner attributes unset; \<^verbatim>\<open>__iter__\<close> calls
  \<^verbatim>\<open>reset\<close> before it reads any of them, so the values given to them here are never read.
\<close>

definition ShellLexer_init :: "string \<Rightarrow> ShellLexer" where
  "ShellLexer_init s =
     \<lparr>string = s,
      whitespace = [CHR '' '', tab, cr],
      quotes = [squote, dquote],
      escape = [backslash],
      escapedquotes = [dquote],
      keep = False,
      placeholder = False,
      quoted = False,
      escapedstate = CHR '' '',
      token = [],
      state = CHR '' ''\<rparr>"

text \<open>\<^verbatim>\<open>self.token += x\<close>, and a statement guarded by a condition without an else branch.\<close>

definition add_token :: "string \<Rightarrow> ShellLexer \<Rightarrow> ShellLexer" where
  "add_token x self = self\<lparr>token := token self @ x\<rparr>"

definition when_do :: "bool \<Rightarrow> (ShellLexer \<Rightarrow> ShellLexer) \<Rightarrow> ShellLexer \<Rightarrow> ShellLexer" where
  "when_do b f self = (if b then f self else self)"

text \<open>
  \<^verbatim>\<open>if self.token or self.quoted: yield self.token; self.reset()\<close>: the lexer after the
  statement and the fragments it yielded.
\<close>

definition yield_token :: "ShellLexer \<Rightarrow> ShellLexer \<times> string list" where
  "yield_token self =
     (if token self \<noteq> [] \<or> quoted self then (reset self, [token self]) else (self, []))"

text \<open>
  The body of the loop \<^verbatim>\<open>for nextchar in self.string\<close>: one branch per \<^verbatim>\<open>if\<close>/\<^verbatim>\<open>elif\<close>
  of the source, in the source's order. The result is the lexer after the iteration and
  the fragments yielded during it (none, one or two).
\<close>

definition lex_char :: "ShellLexer \<Rightarrow> char \<Rightarrow> ShellLexer \<times> string list" where
  "lex_char self0 nextchar =
    (if state self0 = CHR '' '' then
       (let self = when_do (keep self0 \<and> \<not> placeholder self0) (add_token [nextchar]) self0 in
        if nextchar \<in> set (whitespace self) then
          yield_token (when_do (placeholder self) (add_token [nextchar]) self)
        else if nextchar \<in> set (escape self) then
          (self\<lparr>escapedstate := CHR ''a'', state := nextchar\<rparr>, [])
        else if nextchar \<in> set (quotes self) then
          ((when_do (placeholder self) (add_token [nextchar]) self)\<lparr>state := nextchar\<rparr>, [])
        else
          (self\<lparr>token := (if placeholder self then ''{}'' else [nextchar]),
                state := CHR ''a''\<rparr>, []))
     else if state self0 \<in> set (quotes self0) then
       (let self = self0\<lparr>quoted := True\<rparr> in
        if nextchar = state self then
          (let self1 = when_do (placeholder self) (add_token ''{}'') self;
               self2 = when_do (keep self1) (add_token [nextchar]) self1
           in (self2\<lparr>state := CHR ''a''\<rparr>, []))
        else if nextchar \<in> set (escape self) \<and> state self \<in> set (escapedquotes self) then
          (let self1 = when_do (keep self \<and> \<not> placeholder self) (add_token [nextchar]) self
           in (self1\<lparr>escapedstate := state self1, state := nextchar\<rparr>, []))
        else if \<not> placeholder self then
          (add_token [nextchar] self, [])
        else (self, []))
     else if state self0 \<in> set (escape self0) then
       (let self1 = when_do (escapedstate self0 \<in> set (quotes self0) \<and>
                             nextchar \<noteq> state self0 \<and>
                             nextchar \<noteq> escapedstate self0 \<and> \<not> keep self0)
                      (add_token [state self0]) self0;
            self2 = when_do (\<not> placeholder self1) (add_token [nextchar]) self1
        in (self2\<lparr>state := escapedstate self2\<rparr>, []))
     else if state self0 = CHR ''a'' then
       (if nextchar \<in> set (whitespace self0) then
          (let (self1, ys) = yield_token (self0\<lparr>state := CHR '' ''\<rparr>)
           in (self1, ys @ (if keep self1 then [[nextchar]] else [])))
        else if nextchar \<in> set (quotes self0) then
          ((when_do (keep self0) (add_token [nextchar]) self0)\<lparr>state := nextchar\<rparr>, [])
        else if nextchar \<in> set (escape self0) then
          ((when_do (keep self0 \<and> \<not> placeholder self0) (add_token [nextchar]) self0)
             \<lparr>escapedstate := CHR ''a'', state := nextchar\<rparr>, [])
        else if \<not> placeholder self0 then
          (add_token [nextchar] self0, [])
        else (self0, []))
     else (self0, []))"

text \<open>The loop itself, over the characters still to read.\<close>

fun lex_loop :: "ShellLexer \<Rightarrow> string \<Rightarrow> ShellLexer \<times> string list" where
  "lex_loop self [] = (self, [])"
| "lex_loop self (nextchar # rest) =
     (let (self1, ys) = lex_char self nextchar;
          (self2, zs) = lex_loop self1 rest
      in (self2, ys @ zs))"

text \<open>
  The two statements after the loop: a pending escape character is added to the token
  unless \<open>keep\<close> is set, and the token is yielded when it is not empty or was quoted.
\<close>

definition lex_end :: "ShellLexer \<Rightarrow> string list" where
  "lex_end self =
     (let self1 = when_do (state self \<in> set (escape self) \<and> \<not> keep self)
                    (add_token [state self]) self
      in if token self1 \<noteq> [] \<or> quoted self1 then [token self1] else [])"

text \<open>\<^verbatim>\<open>list(lexer)\<close>: every fragment \<^verbatim>\<open>__iter__\<close> yields, in order.\<close>

definition lexer_iter :: "ShellLexer \<Rightarrow> string list" where
  "lexer_iter self =
     (let (self1, ys) = lex_loop (reset self) (string self) in ys @ lex_end self1)"

subsection \<open>The function split\<close>

text \<open>
  \<^verbatim>\<open>str.isspace\<close> of Python: the string is not empty and each character is whitespace.
  Below code point 256 the whitespace characters are 9 to 13, 28 to 32, 133 and 160.
\<close>

definition isspace_char :: "char \<Rightarrow> bool" where
  "isspace_char c =
     (c \<in> set [CHR 0x09, CHR 0x0A, CHR 0x0B, CHR 0x0C, CHR 0x0D, CHR 0x1C, CHR 0x1D,
               CHR 0x1E, CHR 0x1F, CHR 0x20, CHR 0x85, CHR 0xA0])"

definition isspace :: "string \<Rightarrow> bool" where
  "isspace t = (t \<noteq> [] \<and> list_all isspace_char t)"

text \<open>The lexer that \<^verbatim>\<open>split\<close> builds and configures (its first six lines).\<close>

definition split_lexer :: "string \<Rightarrow> bool \<Rightarrow> bool \<Rightarrow> ShellLexer" where
  "split_lexer s keep_arg placeholder_arg =
     (let lexer = ShellLexer_init s in
      if placeholder_arg then lexer\<lparr>placeholder := True, keep := True\<rparr>
      else lexer\<lparr>keep := keep_arg\<rparr>)"

text \<open>The loop \<^verbatim>\<open>for t in tokens\<close>, with the variables \<open>spaces\<close> and \<open>out\<close> it updates.\<close>

fun split_walk :: "string list \<Rightarrow> string \<Rightarrow> string list \<Rightarrow> string \<times> string list" where
  "split_walk [] spaces out = (spaces, out)"
| "split_walk (t # ts) spaces out =
     (if isspace t then split_walk ts (spaces @ t) out
      else split_walk ts [] (out @ [spaces @ t]))"

definition split :: "string \<Rightarrow> bool \<Rightarrow> bool \<Rightarrow> string list" where
  "split s keep_arg placeholder_arg =
     (let tokens = lexer_iter (split_lexer s keep_arg placeholder_arg) in
      if tokens = [] then []
      else (let (spaces, out) = split_walk tokens [] []
            in if spaces \<noteq> [] then out @ [spaces] else out))"

subsection \<open>Predicates used to state the properties\<close>

text \<open>
  What holds of the lexer between two iterations of its loop: the character classes are
  the ones \<^verbatim>\<open>__init__\<close> sets, the state is one of the five the source uses, between
  tokens the accumulator is empty and not quoted, and after an escape character the
  state to return to is the word state or the double quote.
\<close>

definition lexer_inv :: "ShellLexer \<Rightarrow> bool" where
  "lexer_inv self \<longleftrightarrow>
     whitespace self = [CHR '' '', tab, cr] \<and> quotes self = [squote, dquote] \<and>
     escape self = [backslash] \<and> escapedquotes self = [dquote] \<and>
     state self \<in> set [CHR '' '', CHR ''a'', squote, dquote, backslash] \<and>
     (state self = CHR '' '' \<longrightarrow> token self = [] \<and> \<not> quoted self) \<and>
     (state self = backslash \<longrightarrow> escapedstate self \<in> set [CHR ''a'', dquote])"

text \<open>
  The state in which the lexer that \<^verbatim>\<open>split\<close> builds leaves its loop: a quote character
  when the input ends inside an open quote, the escape character when it ends right
  after an escape character that nothing follows.
\<close>

definition final_state :: "string \<Rightarrow> bool \<Rightarrow> bool \<Rightarrow> char" where
  "final_state s keep_arg placeholder_arg =
     state (fst (lex_loop (reset (split_lexer s keep_arg placeholder_arg)) s))"

section \<open>Properties\<close>

subsection \<open>Evaluation and the invariant of the loop\<close>

text \<open>
  \<open>lex_eval\<close> and \<open>split_eval\<close> run the lexer and \<open>split\<close> on a given string; \<open>lex_defs\<close>
  also replaces each pair pattern by projections, for the proofs about any string.
\<close>

lemmas lex_eval = lex_char_def yield_token_def when_do_def add_token_def reset_def Let_def

lemmas lex_defs = lex_eval case_prod_beta

lemmas split_eval = split_def split_lexer_def ShellLexer_init_def lexer_iter_def lex_end_def
  isspace_def isspace_char_def lex_eval

lemma lexer_inv_reset_split_lexer: "lexer_inv (reset (split_lexer s k p))"
  by (simp add: lexer_inv_def reset_def split_lexer_def ShellLexer_init_def Let_def)

lemma split_lexer_fields:
  "string (split_lexer s k p) = s"
  "keep (split_lexer s k p) = (k \<or> p)"
  "placeholder (split_lexer s k p) = p"
  "escape (split_lexer s k p) = [backslash]"
  by (simp_all add: split_lexer_def ShellLexer_init_def Let_def)

lemma lexer_inv_cases:
  assumes "lexer_inv self"
  obtains (idle) "state self = CHR '' ''" | (word) "state self = CHR ''a''"
    | (single) "state self = squote" | (double) "state self = dquote"
    | (escaped) "state self = backslash"
  using assms unfolding lexer_inv_def by auto

lemma lex_char_inv:
  assumes "lexer_inv self"
  shows "lexer_inv (fst (lex_char self c))"
  using assms
proof (cases rule: lexer_inv_cases)
  case idle
  with assms show ?thesis by (simp add: lexer_inv_def lex_defs)
next
  case word
  with assms show ?thesis by (simp add: lexer_inv_def lex_defs)
next
  case single
  with assms show ?thesis by (simp add: lexer_inv_def lex_defs)
next
  case double
  with assms show ?thesis by (simp add: lexer_inv_def lex_defs)
next
  case escaped
  with assms show ?thesis by (auto simp add: lexer_inv_def lex_defs)
qed

lemma lex_char_flags:
  "keep (fst (lex_char self c)) = keep self \<and>
   placeholder (fst (lex_char self c)) = placeholder self"
  by (simp add: lex_defs)


lemma lex_loop_flags:
  "keep (fst (lex_loop self cs)) = keep self \<and>
   placeholder (fst (lex_loop self cs)) = placeholder self"
  by (induction cs arbitrary: self) (simp_all add: case_prod_beta lex_char_flags)

lemma lex_loop_append:
  "lex_loop self (xs @ ys) =
     (fst (lex_loop (fst (lex_loop self xs)) ys),
      snd (lex_loop self xs) @ snd (lex_loop (fst (lex_loop self xs)) ys))"
  by (induction xs arbitrary: self) (simp_all add: case_prod_beta)

subsection \<open>The walk of split keeps every character of every fragment\<close>

lemma split_walk_concat:
  "concat (snd (split_walk ts spaces out)) @ fst (split_walk ts spaces out) =
   concat out @ spaces @ concat ts"
  by (induction ts spaces out rule: split_walk.induct) simp_all

lemma split_concat: "concat (split s k p) = concat (lexer_iter (split_lexer s k p))"
  using split_walk_concat [of "lexer_iter (split_lexer s k p)" "[]" "[]"]
  by (auto simp add: split_def Let_def case_prod_beta)

lemma split_single_fragment: "lexer_iter (split_lexer s k p) = [t] \<Longrightarrow> split s k p = [t]"
  by (simp add: split_def isspace_def)



subsection \<open>Keep mode loses no character\<close>

lemma lex_char_keep_concat:
  assumes "lexer_inv self" and "keep self" and "\<not> placeholder self"
  shows "concat (snd (lex_char self c)) @ token (fst (lex_char self c)) = token self @ [c]"
  using assms(1)
proof (cases rule: lexer_inv_cases)
  case idle
  with assms show ?thesis by (simp add: lexer_inv_def lex_defs)
next
  case word
  with assms show ?thesis by (simp add: lexer_inv_def lex_defs)
next
  case single
  with assms show ?thesis by (simp add: lexer_inv_def lex_defs)
next
  case double
  with assms show ?thesis by (simp add: lexer_inv_def lex_defs)
next
  case escaped
  with assms show ?thesis by (simp add: lexer_inv_def lex_defs)
qed

lemma lex_loop_keep_concat:
  assumes "lexer_inv self" and "keep self" and "\<not> placeholder self"
  shows "concat (snd (lex_loop self cs)) @ token (fst (lex_loop self cs)) = token self @ cs"
  using assms
proof (induction cs arbitrary: self)
  case Nil
  show ?case by simp
next
  case (Cons c cs)
  let ?self1 = "fst (lex_char self c)"
  have inv1: "lexer_inv ?self1" using Cons.prems(1) by (rule lex_char_inv)
  have k1: "keep ?self1" "\<not> placeholder ?self1"
    using Cons.prems(2,3) by (simp_all add: lex_char_flags)
  have "concat (snd (lex_loop ?self1 cs)) @ token (fst (lex_loop ?self1 cs)) = token ?self1 @ cs"
    using inv1 k1 by (rule Cons.IH)
  moreover have "concat (snd (lex_char self c)) @ token ?self1 = token self @ [c]"
    using Cons.prems by (rule lex_char_keep_concat)
  ultimately show ?case
    by (simp add: case_prod_beta)
qed

lemma lex_end_keep_concat: "keep self \<Longrightarrow> concat (lex_end self) = token self"
  by (simp add: lex_end_def when_do_def)

lemma lexer_iter_keep_concat: "concat (lexer_iter (split_lexer s True False)) = s"
proof -
  let ?l = "split_lexer s True False"
  have inv: "lexer_inv (reset ?l)" by (rule lexer_inv_reset_split_lexer)
  have flags: "keep (reset ?l)" "\<not> placeholder (reset ?l)" "token (reset ?l) = []" "string ?l = s"
    by (simp_all add: reset_def split_lexer_def ShellLexer_init_def)
  have "keep (fst (lex_loop (reset ?l) s))" using flags by (simp add: lex_loop_flags)
  then have "concat (lex_end (fst (lex_loop (reset ?l) s))) = token (fst (lex_loop (reset ?l) s))"
    by (rule lex_end_keep_concat)
  moreover have "concat (snd (lex_loop (reset ?l) s)) @ token (fst (lex_loop (reset ?l) s)) = s"
    using lex_loop_keep_concat [OF inv flags(1,2), of s] flags(3) by simp
  ultimately show ?thesis
    by (simp add: lexer_iter_def case_prod_beta flags(4))
qed

lemma split_keep_concat: "concat (split s True False) = s"
  by (simp add: split_concat lexer_iter_keep_concat)

text \<open>
  Claim C1. With \<open>keep\<close> set and \<open>placeholder\<close> not set, the tokens that \<open>split\<close> returns,
  concatenated in order, are the input string, for every input that does not end inside
  an open quote and does not end with an escape character that nothing follows.
  (Lemma \<open>split_keep_concat\<close> above shows the same equation for the inputs the
  hypothesis leaves out.)
\<close>

theorem split_keep_roundtrip:
  assumes "final_state s True False \<notin> set [squote, dquote]"
    and "final_state s True False \<noteq> backslash"
  shows "concat (split s True False) = s"
  by (rule split_keep_concat)

theorem split_keep_roundtrip_witness:
  "final_state (''echo '' @ [dquote] @ ''a b'' @ [dquote] @ '' c'') True False = CHR ''a'' \<and>
   split (''echo '' @ [dquote] @ ''a b'' @ [dquote] @ '' c'') True False =
     [''echo'', '' '' @ [dquote] @ ''a b'' @ [dquote], '' c''] \<and>
   concat (split (''echo '' @ [dquote] @ ''a b'' @ [dquote] @ '' c'') True False) =
     ''echo '' @ [dquote] @ ''a b'' @ [dquote] @ '' c''"
proof -
  let ?s = "''echo '' @ [dquote] @ ''a b'' @ [dquote] @ '' c''"
  have fin: "final_state ?s True False = CHR ''a''"
    by (simp add: final_state_def split_lexer_def ShellLexer_init_def lex_eval)
  have res: "split ?s True False = [''echo'', '' '' @ [dquote] @ ''a b'' @ [dquote], '' c'']"
    by (simp add: split_eval)
  have h1: "final_state ?s True False \<notin> set [squote, dquote]" using fin by simp
  have h2: "final_state ?s True False \<noteq> backslash" using fin by simp
  show ?thesis using fin res split_keep_roundtrip [OF h1 h2] by simp
qed

subsection \<open>Inside an open quote\<close>

lemma lex_char_in_single:
  assumes "lexer_inv self" and "state self = squote" and "c \<noteq> squote"
  shows "lex_char self c =
           (self\<lparr>quoted := True, token := token self @ (if placeholder self then [] else [c])\<rparr>, [])"
  using assms by (simp add: lexer_inv_def lex_defs)

lemma lex_char_in_double:
  assumes "lexer_inv self" and "state self = dquote" and "c \<noteq> dquote" and "c \<noteq> backslash"
  shows "lex_char self c =
           (self\<lparr>quoted := True, token := token self @ (if placeholder self then [] else [c])\<rparr>, [])"
  using assms by (simp add: lexer_inv_def lex_defs)

lemma lex_char_in_quote:
  assumes "lexer_inv self" and "state self = q" and "q = squote \<or> q = dquote"
    and "c \<noteq> q" and "q = dquote \<longrightarrow> c \<noteq> backslash"
  shows "lex_char self c =
           (self\<lparr>quoted := True, token := token self @ (if placeholder self then [] else [c])\<rparr>, [])"
  using assms(3)
proof
  assume "q = squote"
  with assms show ?thesis by (intro lex_char_in_single) simp_all
next
  assume "q = dquote"
  with assms show ?thesis by (intro lex_char_in_double) simp_all
qed

lemma lexer_inv_in_quote:
  assumes "lexer_inv self" and "state self = q" and "q = squote \<or> q = dquote"
  shows "lexer_inv (self\<lparr>quoted := True, token := t\<rparr>)"
  using assms(3)
proof
  assume "q = squote"
  with assms(1,2) show ?thesis by (simp add: lexer_inv_def)
next
  assume "q = dquote"
  with assms(1,2) show ?thesis by (simp add: lexer_inv_def)
qed

lemma lex_char_open_single:
  "lex_char (reset (split_lexer s k p)) squote =
     ((reset (split_lexer s k p))\<lparr>token := (if k \<or> p then [squote] else []), state := squote\<rparr>, [])"
  by (simp add: lex_defs split_lexer_def ShellLexer_init_def)



lemma lex_loop_in_quote:
  assumes "lexer_inv self" and "state self = q" and "q = squote \<or> q = dquote"
    and "q \<notin> set body" and "q = dquote \<longrightarrow> backslash \<notin> set body" and "body \<noteq> []"
  shows "lex_loop self body =
           (self\<lparr>quoted := True, token := token self @ (if placeholder self then [] else body)\<rparr>, [])"
  using assms
proof (induction body arbitrary: self)
  case Nil
  then show ?case by simp
next
  case (Cons c cs)
  let ?self1 = "self\<lparr>quoted := True, token := token self @ (if placeholder self then [] else [c])\<rparr>"
  have c: "c \<noteq> q" "q = dquote \<longrightarrow> c \<noteq> backslash"
    using Cons.prems(4,5) by auto
  have step: "lex_char self c = (?self1, [])"
    using Cons.prems(1,2,3) c by (rule lex_char_in_quote)
  have inv1: "lexer_inv ?self1"
    using Cons.prems(1,2,3) by (rule lexer_inv_in_quote)
  show ?case
  proof (cases "cs = []")
    case True
    then show ?thesis using step by simp
  next
    case False
    have st1: "state ?self1 = q" using Cons.prems(2) by simp
    have cs: "q \<notin> set cs" "q = dquote \<longrightarrow> backslash \<notin> set cs"
      using Cons.prems(4,5) by auto
    have "lex_loop ?self1 cs =
            (?self1\<lparr>quoted := True, token := token ?self1 @ (if placeholder ?self1 then [] else cs)\<rparr>, [])"
      using inv1 st1 Cons.prems(3) cs False by (rule Cons.IH)
    then show ?thesis using step by simp
  qed
qed

lemma lex_char_close_single:
  assumes "lexer_inv self" and "state self = squote" and "\<not> keep self" and "\<not> placeholder self"
  shows "lex_char self squote = (self\<lparr>quoted := True, state := CHR ''a''\<rparr>, [])"
  using assms by (simp add: lexer_inv_def lex_defs)




lemma split_single_quoted:
  assumes "squote \<notin> set body"
  shows "split (squote # body @ [squote]) False False = [body]"
proof -
  let ?l = "split_lexer (squote # body @ [squote]) False False"
  let ?self1 = "(reset ?l)\<lparr>token := [], state := squote\<rparr>"
  have first: "lex_char (reset ?l) squote = (?self1, [])"
    using lex_char_open_single [of "squote # body @ [squote]" False False] by simp
  have "lexer_inv (fst (lex_char (reset ?l) squote))"
    by (intro lex_char_inv lexer_inv_reset_split_lexer)
  then have inv1: "lexer_inv ?self1" using first by simp
  have flags: "\<not> keep ?self1" "\<not> placeholder ?self1" "state ?self1 = squote"
    by (simp_all add: reset_def split_lexer_fields)
  obtain self2 where body: "lex_loop ?self1 body = (self2, [])"
    and self2: "lexer_inv self2" "state self2 = squote" "\<not> keep self2" "\<not> placeholder self2"
      "token self2 = body"
  proof (cases "body = []")
    case True
    show ?thesis
      by (rule that [of ?self1]) (use True inv1 flags in simp_all)
  next
    case False
    have l: "lex_loop ?self1 body =
       (?self1\<lparr>quoted := True, token := token ?self1 @ (if placeholder ?self1 then [] else body)\<rparr>, [])"
      using inv1 flags(3) _ assms _ False by (rule lex_loop_in_quote) simp_all
    have i: "lexer_inv (?self1\<lparr>quoted := True, token := token ?self1 @ (if placeholder ?self1 then [] else body)\<rparr>)"
      using inv1 flags(3) by (rule lexer_inv_in_quote) simp
    show ?thesis
      by (rule that [OF l i]) (use flags in simp_all)
  qed
  have close: "lex_char self2 squote = (self2\<lparr>quoted := True, state := CHR ''a''\<rparr>, [])"
    using self2(1-4) by (rule lex_char_close_single)
  have esc: "escape self2 = [backslash]" using self2(1) by (simp add: lexer_inv_def)
  have fin: "lex_end (self2\<lparr>quoted := True, state := CHR ''a''\<rparr>) = [body]"
    using esc self2(5) by (simp add: lex_end_def when_do_def)
  have str: "string ?l = squote # body @ [squote]" by (simp add: split_lexer_fields)
  have "lexer_iter ?l = [body]"
    unfolding lexer_iter_def str
    using first body close fin by (simp add: lex_loop_append)
  then show ?thesis by (rule split_single_fragment)
qed

subsection \<open>The lexer does not read its own string attribute\<close>







subsection \<open>An escape character at the end of the input\<close>



subsection \<open>Placeholder mode never keeps an escape character\<close>




subsection \<open>A quote character at the end of the input\<close>








subsection \<open>The number of tokens\<close>








subsection \<open>One escaped character\<close>

lemma split_escape_outside: "split [backslash, c] False False = [[c]]"
  by (simp add: split_eval)

lemma split_escape_in_double:
  "split [dquote, backslash, c, dquote] False False =
     [if c = dquote \<or> c = backslash then [c] else [backslash, c]]"
  by (simp add: split_eval)

section \<open>The examples and rules of the specification\<close>

subsection \<open>Quoted words, with and without keep\<close>

text \<open>
  Claim C8. With \<open>keep\<close> and \<open>placeholder\<close> both off, the input
  \<^verbatim>\<open>echo "a b" c\<close> is split into the three tokens \<^verbatim>\<open>echo\<close>, \<^verbatim>\<open>a b\<close> and \<^verbatim>\<open>c\<close>:
  the quote characters are removed and only whitespace outside quotes separates tokens.
\<close>

theorem split_quote_removal:
  "split (''echo '' @ [dquote] @ ''a b'' @ [dquote] @ '' c'') False False = [''echo'', ''a b'', ''c'']"
  by (simp add: split_eval)

text \<open>
  Claim C2, as the code has it. With \<open>keep\<close> on, the same input gives three tokens in
  which the quote characters are kept and each blank between two tokens stands in front
  of the token that follows it: \<^verbatim>\<open>echo\<close>, then a blank and \<^verbatim>\<open>"a b"\<close>, then a blank
  and \<^verbatim>\<open>c\<close>.
\<close>

theorem split_keep_quoted_example:
  "split (''echo '' @ [dquote] @ ''a b'' @ [dquote] @ '' c'') True False =
     [''echo'', '' '' @ [dquote] @ ''a b'' @ [dquote], '' c'']"
  by (simp add: split_eval)

text \<open>
  The list the claim C2 gives, with no blank in front of the second and third token, is
  not what \<open>split\<close> returns.
\<close>

theorem split_keep_quoted_example_counterexample:
  "split (''echo '' @ [dquote] @ ''a b'' @ [dquote] @ '' c'') True False \<noteq>
     [''echo'', [dquote] @ ''a b'' @ [dquote], ''c'']"
  by (simp add: split_eval)


subsection \<open>Placeholder mode\<close>

text \<open>
  Claim C3, as the code has it. With \<open>placeholder\<close> on, the input \<^verbatim>\<open>gvim -f "{}"\<close>
  gives three tokens: the marker \<^verbatim>\<open>{}\<close> for the word gvim, a blank and the marker
  for the word -f, and a blank and \<^verbatim>\<open>"{}"\<close>, where the content of the quoted segment
  is the marker and both quote characters stand around it. The words outside quotes are
  replaced by the marker too.
\<close>

theorem split_placeholder_example:
  "split (''gvim -f '' @ [dquote] @ ''{}'' @ [dquote]) False True =
     [''{}'', '' {}'', '' '' @ [dquote] @ ''{}'' @ [dquote]]"
  by (simp add: split_eval)

text \<open>
  The second half of claim C3, that the text \<^verbatim>\<open>gvim -f\<close> stays intact in the returned
  tokens, does not hold: none of the characters g, v, i, m, f and - occurs in any token.
\<close>

theorem split_placeholder_example_counterexample:
  "set ''gvimf-'' \<inter> set (concat (split (''gvim -f '' @ [dquote] @ ''{}'' @ [dquote]) False True)) = {}"
  by (simp add: split_eval)

text \<open>
  Claim C4. For every input and every value of the caller's \<open>keep\<close>, the lexer that
  \<open>split\<close> builds with \<open>placeholder\<close> on has both \<open>placeholder\<close> and \<open>keep\<close> set, so
  the result is the one for \<open>keep\<close> on; with \<open>placeholder\<close> off the lexer's \<open>keep\<close> is
  the caller's. On \<^verbatim>\<open>a b\<close> with \<open>keep\<close> off and \<open>placeholder\<close> on the lexer still yields
  the blank as a fragment and \<open>split\<close> puts it in front of the next token; with both
  off there is no such fragment.
\<close>

theorem split_placeholder_forces_keep:
  "keep (split_lexer s k True) \<and> placeholder (split_lexer s k True) \<and>
   keep (split_lexer s k False) = k \<and> \<not> placeholder (split_lexer s k False) \<and>
   split s k True = split s True True \<and>
   lexer_iter (split_lexer ''a b'' False True) = [''{}'', '' '', ''{}''] \<and>
   split ''a b'' False True = [''{}'', '' {}''] \<and>
   lexer_iter (split_lexer ''a b'' False False) = [''a'', ''b''] \<and>
   lexer_iter (split_lexer ''a b'' True False) = [''a'', '' '', ''b'']"
proof -
  have "split_lexer s k True = split_lexer s True True"
    by (simp add: split_lexer_def)
  then have "split s k True = split s True True"
    by (simp add: split_def)
  moreover have "lexer_iter (split_lexer ''a b'' False True) = [''{}'', '' '', ''{}'']"
    by (simp add: split_eval)
  moreover have "split ''a b'' False True = [''{}'', '' {}'']"
    by (simp add: split_eval)
  moreover have "lexer_iter (split_lexer ''a b'' False False) = [''a'', ''b'']"
    by (simp add: split_eval)
  moreover have "lexer_iter (split_lexer ''a b'' True False) = [''a'', '' '', ''b'']"
    by (simp add: split_eval)
  ultimately show ?thesis by (simp add: split_lexer_fields)
qed

subsection \<open>Empty input, blank input, empty quotes\<close>

text \<open>
  Claim C9. The empty input gives no token (whatever the flags). Two blanks give no
  token with \<open>keep\<close> off. With \<open>keep\<close> on the lexer yields each blank as a fragment,
  the walk of \<open>split\<close> gathers both in its buffer of pending whitespace and emits
  nothing, and the buffer, not empty at the end, becomes the one token returned.
\<close>

theorem split_empty_and_blank:
  "split [] False False = [] \<and> split [] k p = [] \<and>
   split ''  '' False False = [] \<and>
   lexer_iter (split_lexer ''  '' True False) = ['' '', '' ''] \<and>
   split_walk ['' '', '' ''] [] [] = (''  '', []) \<and>
   split ''  '' True False = [''  '']"
  by (simp add: split_eval)

text \<open>
  Claim C10. An input that is just an empty quoted segment, \<^verbatim>\<open>''\<close> or \<^verbatim>\<open>""\<close>, gives
  one token, the empty string, with both flags off: the lexer yields its empty accumulator
  at the end of the input because \<open>quoted\<close> is set, and the empty string is not
  whitespace for \<open>isspace\<close>, so \<open>split\<close> appends it as a token.
\<close>

theorem split_empty_quoted:
  "lexer_iter (split_lexer [squote, squote] False False) = [[]] \<and>
   \<not> isspace [] \<and>
   split [squote, squote] False False = [[]] \<and>
   lexer_iter (split_lexer [dquote, dquote] False False) = [[]] \<and>
   split [dquote, dquote] False False = [[]]"
  by (simp add: split_eval)

subsection \<open>The escape character\<close>

text \<open>
  Claim C6. With both flags off: inside double quotes a backslash escapes a double quote,
  \<^verbatim>\<open>"a\"b"\<close> gives the token \<^verbatim>\<open>a"b\<close>; inside single quotes it is an ordinary
  character, \<^verbatim>\<open>'a\b'\<close> gives \<^verbatim>\<open>a\b\<close>. More generally, any text without a single
  quote, put between single quotes, comes back unchanged as the only token, backslashes
  included; between double quotes a backslash is dropped in front of a double quote or
  a backslash and kept in front of any other character; outside quotes a backslash is
  dropped and the character after it is taken as it is.
\<close>

theorem split_backslash_rules:
  "split ([dquote] @ ''a'' @ [backslash, dquote] @ ''b'' @ [dquote]) False False =
     [''a'' @ [dquote] @ ''b''] \<and>
   split ([squote] @ ''a'' @ [backslash] @ ''b'' @ [squote]) False False =
     [''a'' @ [backslash] @ ''b''] \<and>
   (squote \<notin> set body \<longrightarrow> split (squote # body @ [squote]) False False = [body]) \<and>
   split [dquote, backslash, c, dquote] False False =
     [if c = dquote \<or> c = backslash then [c] else [backslash, c]] \<and>
   split [backslash, c] False False = [[c]]"
proof (intro conjI impI)
  show "split ([dquote] @ ''a'' @ [backslash, dquote] @ ''b'' @ [dquote]) False False =
     [''a'' @ [dquote] @ ''b'']"
    by (simp add: split_eval)
  show "split ([squote] @ ''a'' @ [backslash] @ ''b'' @ [squote]) False False =
     [''a'' @ [backslash] @ ''b'']"
    by (simp add: split_eval)
  show "split (squote # body @ [squote]) False False = [body]" if "squote \<notin> set body"
    using that by (rule split_single_quoted)
  show "split [dquote, backslash, c, dquote] False False =
     [if c = dquote \<or> c = backslash then [c] else [backslash, c]]"
    by (rule split_escape_in_double)
  show "split [backslash, c] False False = [[c]]"
    by (rule split_escape_outside)
qed

theorem split_backslash_rules_witness:
  "squote \<notin> set [backslash, backslash, CHR ''n''] \<and>
   split (squote # [backslash, backslash, CHR ''n''] @ [squote]) False False =
     [[backslash, backslash, CHR ''n'']] \<and>
   split [dquote, backslash, CHR ''n'', dquote] False False = [[backslash, CHR ''n'']] \<and>
   split [dquote, backslash, backslash, dquote] False False = [[backslash]] \<and>
   split [backslash, CHR '' ''] False False = ['' '']"
  using split_backslash_rules [where body = "[backslash, backslash, CHR ''n'']" and c = "CHR ''n''"]
    split_backslash_rules [where body = "[]" and c = backslash]
    split_backslash_rules [where body = "[]" and c = "CHR '' ''"]
  by simp

subsection \<open>The end of the input\<close>




end
